theory Spec2Isabelle
  imports Complex_Main
begin

section \<open>Data model (types.ts)\<close>

text \<open>
  The enumerations and interfaces of \<^verbatim>\<open>types.ts\<close>. An optional field is an
  \<open>option\<close>. The field \<^verbatim>\<open>id\<close> of a work item is written \<open>id_w\<close>, because
  \<open>id\<close> is the identity function of HOL. JavaScript numbers that hold identifiers are
  integers here, each standing for the double of the same value; the confidence is a
  real number, so the rounding of IEEE doubles is not part of the model.
\<close>

datatype WorkItemType = Bug | Feature | Task | UserStory | Epic

datatype Priority = Critical | High | Medium | Low

record WorkItem =
  id_w :: int
  title :: string
  type :: WorkItemType
  state :: string
  assignedTo :: "string option"
  description :: "string option"
  tags :: "string list option"
  priority :: "Priority option"
  sprint :: "string option"
  url :: "string option"

record ClassificationResult =
  workItemId :: int
  suggestedTags :: "string list"
  suggestedPriority :: Priority
  confidence :: real
  reasoning :: string

section \<open>String primitives used by the classifier\<close>

text \<open>
  \<^verbatim>\<open>String.prototype.toLowerCase\<close>, \<^verbatim>\<open>includes\<close> and \<^verbatim>\<open>trim\<close> are
  built-ins of the platform. Strings are lists of characters; \<open>toLowerCase\<close> maps the
  letters A to Z to a to z and leaves every other character alone (what the platform
  does to letters outside ASCII is not modelled, and no theorem below depends on which
  characters \<open>toLowerCase\<close> changes), \<open>includes_str\<close> is the substring test, and
  \<open>trim\<close> removes white space at both ends.
\<close>

definition toLowerChar :: "char \<Rightarrow> char" where
  "toLowerChar c =
     (case map_of (zip ''ABCDEFGHIJKLMNOPQRSTUVWXYZ'' ''abcdefghijklmnopqrstuvwxyz'') c of
        None \<Rightarrow> c
      | Some l \<Rightarrow> l)"

definition toLowerCase :: "string \<Rightarrow> string" where
  "toLowerCase s = map toLowerChar s"

fun startsWith :: "string \<Rightarrow> string \<Rightarrow> bool" where
  "startsWith s [] = True"
| "startsWith [] (k # ks) = False"
| "startsWith (c # cs) (k # ks) = (c = k \<and> startsWith cs ks)"

fun includes_str :: "string \<Rightarrow> string \<Rightarrow> bool" where
  "includes_str [] k = (k = [])"
| "includes_str (c # cs) k = (startsWith (c # cs) k \<or> includes_str cs k)"

definition isWhiteSpace :: "char \<Rightarrow> bool" where
  "isWhiteSpace c = (c \<in> set [CHR '' '', CHR 0x09, CHR 0x0A, CHR 0x0B, CHR 0x0C, CHR 0x0D])"

definition trim :: "string \<Rightarrow> string" where
  "trim s = rev (dropWhile isWhiteSpace (rev (dropWhile isWhiteSpace s)))"

section \<open>ClassificationService.classifyWorkItem (classificationService.ts)\<close>

text \<open>
  The three local variables of \<^verbatim>\<open>classifyWorkItem\<close> that the rules update:
  \<^verbatim>\<open>suggestedTags\<close>, \<^verbatim>\<open>suggestedPriority\<close> and \<^verbatim>\<open>reasoning\<close>.
\<close>

record Locals =
  tagsL :: "string list"
  priorityL :: Priority
  reasoningL :: string

text \<open>\<^verbatim>\<open>suggestedTags.push(tag)\<close> and \<^verbatim>\<open>reasoning += fragment\<close>.\<close>

definition push :: "string \<Rightarrow> Locals \<Rightarrow> Locals" where
  "push tag s = s\<lparr>tagsL := tagsL s @ [tag]\<rparr>"

definition explain :: "string \<Rightarrow> Locals \<Rightarrow> Locals" where
  "explain fragment s = s\<lparr>reasoningL := reasoningL s @ fragment\<rparr>"

text \<open>
  Lines 20 to 22: the text that every rule searches, the lower-case title, one space, and
  the lower-case description (\<^verbatim>\<open>workItem.description || ''\<close>).
\<close>

definition haystack :: "WorkItem \<Rightarrow> string" where
  "haystack workItem =
     toLowerCase (title workItem) @ '' '' @
     toLowerCase (case description workItem of None \<Rightarrow> [] | Some d \<Rightarrow> d)"

text \<open>Lines 24 to 56: the \<^verbatim>\<open>if / else if / else if\<close> chain of the priority keywords.\<close>

definition criticalKeywords :: "WorkItemType \<Rightarrow> string \<Rightarrow> bool" where
  "criticalKeywords ty text =
     (includes_str text ''critical'' \<or> includes_str text ''production down'' \<or>
      includes_str text ''security'' \<or> includes_str text ''data loss'' \<or>
      (ty = Bug \<and> includes_str text ''blocker''))"

definition highKeywords :: "string \<Rightarrow> bool" where
  "highKeywords text =
     (includes_str text ''urgent'' \<or> includes_str text ''important'' \<or>
      includes_str text ''customer impact'' \<or> includes_str text ''high priority'')"

definition lowKeywords :: "string \<Rightarrow> bool" where
  "lowKeywords text =
     (includes_str text ''nice to have'' \<or> includes_str text ''low priority'' \<or>
      includes_str text ''enhancement'' \<or> includes_str text ''cosmetic'')"

definition priorityRules :: "WorkItemType \<Rightarrow> string \<Rightarrow> Locals \<Rightarrow> Locals" where
  "priorityRules ty text s =
     (if criticalKeywords ty text then
        explain ''Critical priority due to severity keywords. ''
          (push ''Critical'' (s\<lparr>priorityL := Critical\<rparr>))
      else if highKeywords text then
        explain ''High priority due to urgency indicators. ''
          (push ''HighPriority'' (s\<lparr>priorityL := High\<rparr>))
      else if lowKeywords text then
        explain ''Low priority - non-critical enhancement. '' (s\<lparr>priorityL := Low\<rparr>)
      else s)"

text \<open>
  Lines 58 to 86: seven independent rules of one shape, three keywords joined by
  \<^verbatim>\<open>||\<close>, a tag and a reasoning fragment.
\<close>

definition areaRule ::
  "string \<Rightarrow> string \<Rightarrow> string \<Rightarrow> string \<Rightarrow> string \<Rightarrow> string \<Rightarrow> Locals \<Rightarrow> Locals" where
  "areaRule k1 k2 k3 tag fragment text s =
     (if includes_str text k1 \<or> includes_str text k2 \<or> includes_str text k3
      then explain fragment (push tag s) else s)"

definition areaRules :: "string \<Rightarrow> Locals \<Rightarrow> Locals" where
  "areaRules text s0 =
     (let s1 = areaRule ''ui'' ''frontend'' ''interface'' ''UI'' ''UI component identified. '' text s0;
          s2 = areaRule ''backend'' ''api'' ''server''
                 ''Backend'' ''Backend component identified. '' text s1;
          s3 = areaRule ''database'' ''sql'' ''data''
                 ''Database'' ''Database component identified. '' text s2;
          s4 = areaRule ''performance'' ''slow'' ''optimization''
                 ''Performance'' ''Performance concern identified. '' text s3;
          s5 = areaRule ''security'' ''authentication'' ''authorization''
                 ''Security'' ''Security aspect identified. '' text s4;
          s6 = areaRule ''test'' ''testing'' ''qa'' ''Testing'' ''Testing related. '' text s5;
          s7 = areaRule ''documentation'' ''docs'' ''readme''
                 ''Documentation'' ''Documentation work. '' text s6
      in s7)"

text \<open>Lines 88 to 95: the tag of the work item type; Task and UserStory add none.\<close>

definition typeRules :: "WorkItemType \<Rightarrow> Locals \<Rightarrow> Locals" where
  "typeRules ty s =
     (if ty = Bug then push ''Bug'' s
      else if ty = Feature then push ''Feature'' s
      else if ty = Epic then push ''Epic'' s
      else s)"

text \<open>Lines 97 to 101: the tag of a new work item.\<close>

definition stateRules :: "string \<Rightarrow> Locals \<Rightarrow> Locals" where
  "stateRules st s =
     (if toLowerCase st = ''new''
      then explain ''New work item needs review. '' (push ''NeedsReview'' s) else s)"

definition initialLocals :: Locals where
  "initialLocals = \<lparr>tagsL = [], priorityL = Medium, reasoningL = []\<rparr>"

definition runRules :: "WorkItem \<Rightarrow> Locals" where
  "runRules workItem =
     stateRules (state workItem)
       (typeRules (type workItem)
          (areaRules (haystack workItem)
             (priorityRules (type workItem) (haystack workItem) initialLocals)))"

text \<open>
  Lines 103 to 112: the confidence and the result. \<^verbatim>\<open>reasoning.trim() || '...'\<close>
  takes the fallback when the trimmed reasoning is the empty string.
\<close>

definition classifyWorkItem :: "WorkItem \<Rightarrow> ClassificationResult" where
  "classifyWorkItem workItem =
     (let s = runRules workItem;
          c = min 0.95 (0.6 + real (length (tagsL s)) * 0.1)
      in \<lparr>workItemId = id_w workItem,
          suggestedTags = tagsL s,
          suggestedPriority = priorityL s,
          confidence = c,
          reasoning = (if trim (reasoningL s) = [] then ''Standard classification applied.''
                       else trim (reasoningL s))\<rparr>)"

definition classifyWorkItems :: "WorkItem list \<Rightarrow> ClassificationResult list" where
  "classifyWorkItems workItems = map classifyWorkItem workItems"

section \<open>Auxiliary notions for the proofs about the classifier\<close>

text \<open>
  The tags that the rules after the priority chain can push, and the relation between the
  local variables before and after such rules: the priority stays, tags of that set are
  appended, text is appended to the reasoning.
\<close>

definition laterTags :: "string set" where
  "laterTags = {''UI'', ''Backend'', ''Database'', ''Performance'', ''Security'', ''Testing'',
     ''Documentation'', ''Bug'', ''Feature'', ''Epic'', ''NeedsReview''}"

definition grows :: "Locals \<Rightarrow> Locals \<Rightarrow> bool" where
  "grows s s' = (priorityL s' = priorityL s \<and>
     (\<exists>extra. tagsL s' = tagsL s @ extra \<and> set extra \<subseteq> laterTags) \<and>
     (\<exists>r. reasoningL s' = reasoningL s @ r))"

section \<open>The sprint store (StateManagementService)\<close>

subsection \<open>JavaScript maps and dates\<close>

text \<open>
  A JavaScript \<^verbatim>\<open>Map\<close> keeps its entries in the order in which their keys were
  first inserted, so it is a list of entries with distinct keys. \<^verbatim>\<open>set\<close> replaces
  the value of a key that is present, in place, and appends a new entry otherwise;
  \<^verbatim>\<open>get\<close> is \<open>map_of\<close>, \<^verbatim>\<open>keys\<close> is \<open>map fst\<close>, \<^verbatim>\<open>values\<close> is
  \<open>map snd\<close>, \<^verbatim>\<open>size\<close> is \<open>length\<close>.
\<close>

fun Map_set :: "'k \<Rightarrow> 'v \<Rightarrow> ('k \<times> 'v) list \<Rightarrow> ('k \<times> 'v) list" where
  "Map_set k v [] = [(k, v)]"
| "Map_set k v ((k', v') # m) = (if k' = k then (k, v) # m else (k', v') # Map_set k v m)"

text \<open>
  A \<^verbatim>\<open>Date\<close> object holds a time value in milliseconds, or is an invalid date (its
  time value is NaN). \<^verbatim>\<open>new Date()\<close> reads the clock; the reading is an argument
  of the operations below.
\<close>

datatype Date = Date int | InvalidDate

record SprintState =
  sprintName :: string
  workItems :: "(int \<times> WorkItem) list"
  lastSyncTime :: Date
  classifications :: "(int \<times> ClassificationResult) list"

text \<open>The private field \<^verbatim>\<open>sprints\<close>, the whole state of the service.\<close>

type_synonym Store = "(string \<times> SprintState) list"

subsection \<open>Writing\<close>

text \<open>
  Each method takes the store and returns the store after the call. A sprint state is an
  object that the map holds by reference: a method that changes the object it got from
  \<open>getOrCreateSprintState\<close> changes the entry of the map, which the model writes back
  with \<open>Map_set\<close> under the same key. Writing to the console is left out.
\<close>

definition getOrCreateSprintState :: "int \<Rightarrow> string \<Rightarrow> Store \<Rightarrow> SprintState \<times> Store" where
  "getOrCreateSprintState now name sprints =
     (case map_of sprints name of
        None \<Rightarrow>
          (let st = \<lparr>sprintName = name, workItems = [], lastSyncTime = Date now,
                      classifications = []\<rparr>
           in (st, Map_set name st sprints))
      | Some st \<Rightarrow> (st, sprints))"

text \<open>
  \<open>updateWorkItems\<close> reads the clock twice, in \<open>getOrCreateSprintState\<close> (\<open>created\<close>)
  and for the assignment to \<^verbatim>\<open>lastSyncTime\<close> (\<open>now\<close>).
\<close>

definition updateWorkItems :: "int \<Rightarrow> int \<Rightarrow> string \<Rightarrow> WorkItem list \<Rightarrow> Store \<Rightarrow> Store" where
  "updateWorkItems created now name items sprints =
     (case getOrCreateSprintState created name sprints of
        (st, sprints') \<Rightarrow>
          (let st' = st\<lparr>workItems := foldl (\<lambda>m wi. Map_set (id_w wi) wi m) (workItems st) items\<rparr>;
               st'' = st'\<lparr>lastSyncTime := Date now\<rparr>
           in Map_set name st'' sprints'))"

definition storeClassifications ::
  "int \<Rightarrow> string \<Rightarrow> ClassificationResult list \<Rightarrow> Store \<Rightarrow> Store" where
  "storeClassifications created name results sprints =
     (case getOrCreateSprintState created name sprints of
        (st, sprints') \<Rightarrow>
          (let st' = st\<lparr>classifications :=
                 foldl (\<lambda>m c. Map_set (workItemId c) c m) (classifications st) results\<rparr>
           in Map_set name st' sprints'))"

subsection \<open>Reading\<close>

text \<open>
  The three lookups by sprint name return their result and the store after the call,
  which is the store before the call: their bodies only read the map.
\<close>

definition getWorkItems :: "string \<Rightarrow> Store \<Rightarrow> WorkItem list \<times> Store" where
  "getWorkItems name sprints =
     (case map_of sprints name of
        None \<Rightarrow> ([], sprints)
      | Some st \<Rightarrow> (map snd (workItems st), sprints))"

definition getClassifications :: "string \<Rightarrow> Store \<Rightarrow> ClassificationResult list \<times> Store" where
  "getClassifications name sprints =
     (case map_of sprints name of
        None \<Rightarrow> ([], sprints)
      | Some st \<Rightarrow> (map snd (classifications st), sprints))"

definition getAllSprints :: "Store \<Rightarrow> string list" where
  "getAllSprints sprints = map fst sprints"

text \<open>The numerals of the enumeration \<^verbatim>\<open>Priority\<close>, which the statistics compare.\<close>

fun priorityNumber :: "Priority \<Rightarrow> nat" where
  "priorityNumber Critical = 1"
| "priorityNumber High = 2"
| "priorityNumber Medium = 3"
| "priorityNumber Low = 4"

record PriorityBreakdown =
  critical :: nat
  high :: nat
  medium :: nat
  low :: nat

record SprintStats =
  statsSprintName :: string
  totalWorkItems :: nat
  totalClassifications :: nat
  statsLastSyncTime :: Date
  priorityBreakdown :: PriorityBreakdown

definition getSprintStats :: "string \<Rightarrow> Store \<Rightarrow> SprintStats option \<times> Store" where
  "getSprintStats name sprints =
     (case map_of sprints name of
        None \<Rightarrow> (None, sprints)
      | Some st \<Rightarrow>
          (let cs = map snd (classifications st)
           in (Some \<lparr>statsSprintName = name,
                     totalWorkItems = length (workItems st),
                     totalClassifications = length (classifications st),
                     statsLastSyncTime = lastSyncTime st,
                     priorityBreakdown =
                       \<lparr>critical = length (filter (\<lambda>c. priorityNumber (suggestedPriority c) = 1) cs),
                        high = length (filter (\<lambda>c. priorityNumber (suggestedPriority c) = 2) cs),
                        medium = length (filter (\<lambda>c. priorityNumber (suggestedPriority c) = 3) cs),
                        low = length (filter (\<lambda>c. priorityNumber (suggestedPriority c) = 4) cs)\<rparr>\<rparr>,
               sprints)))"

subsection \<open>Snapshots\<close>

text \<open>
  \<open>exportState\<close> returns \<^verbatim>\<open>JSON.stringify(data)\<close> and \<open>importState\<close> starts with
  \<^verbatim>\<open>JSON.parse(json)\<close>. Both are functions of the platform; the model works on the
  value that a JSON text denotes. A snapshot text is a \<open>json option\<close>: \<open>None\<close> is a text
  that \<^verbatim>\<open>JSON.parse\<close> rejects with a syntax error, \<open>Some v\<close> a text that it reads as
  \<open>v\<close>, and the text that \<^verbatim>\<open>JSON.stringify\<close> writes for \<open>v\<close> is read back as \<open>v\<close>.

  \<open>JNum n\<close> is the numeral of the integer \<open>n\<close>. \<^verbatim>\<open>JSON.parse\<close> reads a numeral as
  a double, which is the integer itself when it is a safe integer (at most \<open>2^53 - 1\<close> in
  absolute value); beyond, the double is a rounded value or an infinity, which
  \<^verbatim>\<open>JSON.stringify\<close> writes back as another numeral or as \<^verbatim>\<open>null\<close>. The store of
  the model holds integers, so it follows a number into the store only when it is a safe
  integer.

  Three kinds of leaves stand for the texts of values that the service passes through
  without looking inside: \<open>JIsoTime t\<close> is the string that
  \<^verbatim>\<open>Date.prototype.toJSON\<close> gives for the time value \<open>t\<close>, which the \<^verbatim>\<open>Date\<close>
  constructor reads back as \<open>t\<close>; \<open>JWorkItem w\<close> and \<open>JClassification c\<close> are the
  objects with the fields of a work item and of a classification result. A leaf is such
  a text only when its number is one that the text can carry: a time value is within
  8.64e15 milliseconds of the epoch, an identifier is a safe integer.
\<close>

definition safeInteger :: "int \<Rightarrow> bool" where
  "safeInteger n = (\<bar>n\<bar> \<le> 9007199254740991)"

definition timeValue :: "int \<Rightarrow> bool" where
  "timeValue t = (\<bar>t\<bar> \<le> 8640000000000000)"

datatype json =
    JNull
  | JBool bool
  | JNum int
  | JStr string
  | JArr "json list"
  | JObj "(string \<times> json) list"
  | JIsoTime int
  | JWorkItem WorkItem
  | JClassification ClassificationResult




datatype error = SyntaxError | TypeError

text \<open>
  Reading a member of a parsed value: \<^verbatim>\<open>null\<close> has no members and the read throws; a
  member that is not there reads as \<^verbatim>\<open>undefined\<close>, here \<open>None\<close>. When a JSON text
  repeats a key the last occurrence counts. The function is used with the names
  \<^verbatim>\<open>sprints\<close>, \<^verbatim>\<open>name\<close>, \<^verbatim>\<open>workItems\<close>, \<^verbatim>\<open>classifications\<close> and
  \<^verbatim>\<open>lastSyncTime\<close>, none of which is a property of a number, a string, an array, a
  work item or a classification result.
\<close>

definition getProp :: "json \<Rightarrow> string \<Rightarrow> error + json option" where
  "getProp v key =
     (case v of
        JNull \<Rightarrow> Inl TypeError
      | JObj ps \<Rightarrow> Inr (map_of (rev ps) key)
      | _ \<Rightarrow> Inr None)"

text \<open>
  \<^verbatim>\<open>new Map(iterable)\<close>. For \<^verbatim>\<open>undefined\<close> and \<^verbatim>\<open>null\<close> the map is empty.
  Otherwise the argument must be iterable (an array or a string) and every element must
  be an object, whose properties 0 and 1 are the key and the value; anything else is a
  type error. A map that was built but is not a map from numbers to values of the
  expected kind is \<open>None\<close>: the store is typed as in \<^verbatim>\<open>types.ts\<close> and does not follow
  the run beyond those types.
\<close>

definition nthOpt :: "'a list \<Rightarrow> nat \<Rightarrow> 'a option" where
  "nthOpt xs i = (if i < length xs then Some (xs ! i) else None)"

fun mapEntry :: "json \<Rightarrow> error + (json option \<times> json option)" where
  "mapEntry (JArr es) = Inr (nthOpt es 0, nthOpt es 1)"
| "mapEntry (JObj ps) = Inr (map_of (rev ps) ''0'', map_of (rev ps) ''1'')"
| "mapEntry (JWorkItem w) = Inr (None, None)"
| "mapEntry (JClassification c) = Inr (None, None)"
| "mapEntry JNull = Inl TypeError"
| "mapEntry (JBool b) = Inl TypeError"
| "mapEntry (JNum n) = Inl TypeError"
| "mapEntry (JStr s) = Inl TypeError"
| "mapEntry (JIsoTime t) = Inl TypeError"

fun asNumber :: "json option \<Rightarrow> int option" where
  "asNumber (Some (JNum n)) = (if safeInteger n then Some n else None)"
| "asNumber _ = None"

fun asString :: "json option \<Rightarrow> string option" where
  "asString (Some (JStr s)) = Some s"
| "asString _ = None"

fun asWorkItem :: "json option \<Rightarrow> WorkItem option" where
  "asWorkItem (Some (JWorkItem w)) = (if safeInteger (id_w w) then Some w else None)"
| "asWorkItem _ = None"

fun asClassification :: "json option \<Rightarrow> ClassificationResult option" where
  "asClassification (Some (JClassification c)) =
     (if safeInteger (workItemId c) then Some c else None)"
| "asClassification _ = None"

fun addEntry ::
  "(json option \<Rightarrow> 'v option) \<Rightarrow> json option \<times> json option \<Rightarrow> (int \<times> 'v) list option \<Rightarrow>
   (int \<times> 'v) list option" where
  "addEntry dec (k, v) None = None"
| "addEntry dec (k, v) (Some m) =
     (case asNumber k of
        None \<Rightarrow> None
      | Some i \<Rightarrow> (case dec v of None \<Rightarrow> None | Some x \<Rightarrow> Some (Map_set i x m)))"

fun newMapFrom ::
  "(json option \<Rightarrow> 'v option) \<Rightarrow> json list \<Rightarrow> (int \<times> 'v) list option \<Rightarrow>
   error + (int \<times> 'v) list option" where
  "newMapFrom dec [] m = Inr m"
| "newMapFrom dec (e # es) m =
     (case mapEntry e of
        Inl err \<Rightarrow> Inl err
      | Inr kv \<Rightarrow> newMapFrom dec es (addEntry dec kv m))"

fun newMap ::
  "(json option \<Rightarrow> 'v option) \<Rightarrow> json option \<Rightarrow> error + (int \<times> 'v) list option" where
  "newMap dec None = Inr (Some [])"
| "newMap dec (Some JNull) = Inr (Some [])"
| "newMap dec (Some (JArr es)) = newMapFrom dec es (Some [])"
| "newMap dec (Some (JStr s)) = (if s = [] then Inr (Some []) else Inl TypeError)"
| "newMap dec (Some (JIsoTime t)) = Inl TypeError"
| "newMap dec (Some (JBool b)) = Inl TypeError"
| "newMap dec (Some (JNum n)) = Inl TypeError"
| "newMap dec (Some (JObj ps)) = Inl TypeError"
| "newMap dec (Some (JWorkItem w)) = Inl TypeError"
| "newMap dec (Some (JClassification c)) = Inl TypeError"

text \<open>
  \<^verbatim>\<open>new Date(value)\<close> never throws. \<^verbatim>\<open>undefined\<close> gives an invalid date,
  \<^verbatim>\<open>null\<close> and booleans are converted to the numbers 0 and 1, a number is a time value
  when it is within 8.64e15 milliseconds of the epoch and an invalid date beyond (every
  integer of that range is a safe integer, and a numeral beyond it is read as a double
  beyond it). Other strings, arrays and objects are converted to a text that
  \<^verbatim>\<open>Date.parse\<close> reads in a way that depends on the platform; the model gives no date
  for them (\<open>None\<close>).
\<close>

fun newDate :: "json option \<Rightarrow> Date option" where
  "newDate None = Some InvalidDate"
| "newDate (Some JNull) = Some (Date 0)"
| "newDate (Some (JBool b)) = Some (Date (if b then 1 else 0))"
| "newDate (Some (JNum n)) = Some (if timeValue n then Date n else InvalidDate)"
| "newDate (Some (JIsoTime t)) = (if timeValue t then Some (Date t) else None)"
| "newDate (Some (JStr s)) = None"
| "newDate (Some (JArr es)) = None"
| "newDate (Some (JObj ps)) = None"
| "newDate (Some (JWorkItem w)) = None"
| "newDate (Some (JClassification c)) = None"

text \<open>
  The result of \<open>importState\<close>: it returns, or it throws, in both cases leaving a store
  behind; or the run has left what the typed store of the model can hold (a sprint name
  that is not a string, a map with keys or values of another kind, a number that is not
  a safe integer, a date from a text that the model does not read), about which the
  model says nothing further: the code may return or throw there.
\<close>

datatype outcome = Returns Store | Throws error Store | Untyped

text \<open>
  The body of the callback of \<^verbatim>\<open>data.sprints.forEach\<close>, in the order of evaluation of
  the object literal: \<^verbatim>\<open>sprint.name\<close>, the two maps, the date, then
  \<^verbatim>\<open>this.sprints.set\<close>. The store is \<open>None\<close> once it has left the types.
\<close>

fun member :: "json \<Rightarrow> string \<Rightarrow> json option" where
  "member v key = (case getProp v key of Inl e \<Rightarrow> None | Inr x \<Rightarrow> x)"

fun setSprint ::
  "string option \<Rightarrow> (int \<times> WorkItem) list option \<Rightarrow> (int \<times> ClassificationResult) list option \<Rightarrow>
   Date option \<Rightarrow> Store option \<Rightarrow> Store option" where
  "setSprint (Some name) (Some ws) (Some cs) (Some d) (Some sprints) =
     Some (Map_set name
       \<lparr>sprintName = name, workItems = ws, lastSyncTime = d, classifications = cs\<rparr> sprints)"
| "setSprint _ _ _ _ _ = None"

definition importSprint :: "json \<Rightarrow> Store option \<Rightarrow> error + Store option" where
  "importSprint x sprints =
     (case getProp x ''name'' of
        Inl e \<Rightarrow> Inl e
      | Inr name \<Rightarrow>
          (case newMap asWorkItem (member x ''workItems'') of
             Inl e \<Rightarrow> Inl e
           | Inr ws \<Rightarrow>
               (case newMap asClassification (member x ''classifications'') of
                  Inl e \<Rightarrow> Inl e
                | Inr cs \<Rightarrow>
                    Inr (setSprint (asString name) ws cs
                           (newDate (member x ''lastSyncTime'')) sprints))))"

fun finish :: "(Store \<Rightarrow> outcome) \<Rightarrow> Store option \<Rightarrow> outcome" where
  "finish f None = Untyped"
| "finish f (Some sprints) = f sprints"

fun importSprints :: "json list \<Rightarrow> Store option \<Rightarrow> outcome" where
  "importSprints [] sprints = finish Returns sprints"
| "importSprints (x # xs) sprints =
     (case importSprint x sprints of
        Inl e \<Rightarrow> finish (Throws e) sprints
      | Inr sprints' \<Rightarrow> importSprints xs sprints')"

text \<open>
  \<open>importState\<close>: the parse comes first and leaves the store alone when it fails; then
  the store is cleared; then \<^verbatim>\<open>data.sprints.forEach\<close> is called, which is a type error
  unless \<^verbatim>\<open>data.sprints\<close> is an array. The \<^verbatim>\<open>catch\<close> block logs and throws the
  same error again.
\<close>

definition importState :: "json option \<Rightarrow> Store \<Rightarrow> outcome" where
  "importState snapshot sprints =
     (case snapshot of
        None \<Rightarrow> Throws SyntaxError sprints
      | Some data \<Rightarrow>
          (let cleared = [] in
           case getProp data ''sprints'' of
             Inl e \<Rightarrow> Throws e cleared
           | Inr (Some (JArr xs)) \<Rightarrow> importSprints xs (Some cleared)
           | Inr _ \<Rightarrow> Throws TypeError cleared))"

text \<open>
  Three conditions on a store. The first is what it is for the lists to be the contents
  of \<^verbatim>\<open>Map\<close> objects: a map holds a key once. The second and the third say that the
  numbers of the store are numbers that a snapshot can carry: every date of a last sync
  is a valid date, and every key and every identifier is a safe integer.
\<close>

definition keysDistinct :: "Store \<Rightarrow> bool" where
  "keysDistinct sprints =
     (distinct (map fst sprints) \<and>
      list_all (\<lambda>(name, st). distinct (map fst (workItems st)) \<and>
                  distinct (map fst (classifications st))) sprints)"




text \<open>
  What every method keeps: the keys of each map are distinct, and a sprint state is
  stored under its own name.
\<close>

definition wellFormed :: "Store \<Rightarrow> bool" where
  "wellFormed sprints =
     (distinct (map fst sprints) \<and>
      list_all (\<lambda>(name, st). sprintName st = name \<and> distinct (map fst (workItems st)) \<and>
                  distinct (map fst (classifications st))) sprints)"

section \<open>Sample inputs\<close>

text \<open>Concrete work items on which the theorems below are instantiated.\<close>

abbreviation itemOutage :: WorkItem where
  "itemOutage \<equiv> \<lparr>id_w = 1, title = ''Fix production down issue'', type = Bug, state = ''New'',
     assignedTo = None, description = Some [], tags = None, priority = None,
     sprint = None, url = None\<rparr>"

abbreviation itemCosmetic :: WorkItem where
  "itemCosmetic \<equiv> \<lparr>id_w = 2, title = ''Cosmetic'', type = Task, state = ''Active'',
     assignedTo = None, description = None, tags = None, priority = None,
     sprint = None, url = None\<rparr>"

abbreviation itemCosmeticRevised :: WorkItem where
  "itemCosmeticRevised \<equiv> \<lparr>id_w = 2, title = ''Cosmetic, revised'', type = Task,
     state = ''Closed'', assignedTo = None, description = None, tags = None, priority = None,
     sprint = None, url = None\<rparr>"

abbreviation itemCosmeticCopy :: WorkItem where
  "itemCosmeticCopy \<equiv> \<lparr>id_w = 3, title = ''Cosmetic'', type = Task, state = ''Active'',
     assignedTo = Some ''Ada'', description = None, tags = Some [''later''], priority = Some High,
     sprint = Some ''S1'', url = Some ''http://x''\<rparr>"


text \<open>
  A classification result, a store with one sprint, and a snapshot whose only sprint has
  a name and nothing else, with the store that importing it gives and the store that
  exporting and importing that store gives.
\<close>

abbreviation resultCosmetic :: ClassificationResult where
  "resultCosmetic \<equiv> \<lparr>workItemId = 2, suggestedTags = [], suggestedPriority = Low,
     confidence = 0.6, reasoning = ''Low priority - non-critical enhancement.''\<rparr>"

abbreviation storeOne :: Store where
  "storeOne \<equiv> [(''S1'', \<lparr>sprintName = ''S1'', workItems = [(2, itemCosmetic)],
     lastSyncTime = Date 11, classifications = [(2, resultCosmetic)]\<rparr>)]"




section \<open>Properties of the string primitives and of the rules\<close>


lemma startsWith_iff: "startsWith s k \<longleftrightarrow> (\<exists>ss. s = k @ ss)"
  by (induction s k rule: startsWith.induct) auto

lemma includes_str_iff: "includes_str t k \<longleftrightarrow> (\<exists>ps ss. t = ps @ k @ ss)"
proof (induction t)
  case Nil
  then show ?case by simp
next
  case (Cons c cs)
  show ?case
  proof
    assume "includes_str (c # cs) k"
    then consider "startsWith (c # cs) k" | "includes_str cs k" by auto
    then show "\<exists>ps ss. c # cs = ps @ k @ ss"
    proof cases
      case 1
      then obtain ss where "c # cs = k @ ss" unfolding startsWith_iff by blast
      then have "c # cs = [] @ k @ ss" by simp
      then show ?thesis by blast
    next
      case 2
      then obtain ps ss where "cs = ps @ k @ ss" using Cons.IH by blast
      then have "c # cs = (c # ps) @ k @ ss" by simp
      then show ?thesis by blast
    qed
  next
    assume "\<exists>ps ss. c # cs = ps @ k @ ss"
    then obtain ps ss where eq: "c # cs = ps @ k @ ss" by blast
    show "includes_str (c # cs) k"
    proof (cases ps)
      case Nil
      with eq have "startsWith (c # cs) k" unfolding startsWith_iff by auto
      then show ?thesis by simp
    next
      case (Cons p ps')
      with eq have "cs = ps' @ k @ ss" by simp
      then have "includes_str cs k" using Cons.IH by blast
      then show ?thesis by simp
    qed
  qed
qed

lemma push_simps:
  "tagsL (push tag s) = tagsL s @ [tag]" "priorityL (push tag s) = priorityL s"
  "reasoningL (push tag s) = reasoningL s"
  by (simp_all add: push_def)

lemma explain_simps:
  "tagsL (explain f s) = tagsL s" "priorityL (explain f s) = priorityL s"
  "reasoningL (explain f s) = reasoningL s @ f"
  by (simp_all add: explain_def)

lemma areaRule_tags:
  "tagsL (areaRule k1 k2 k3 tag f text s) =
     tagsL s @ (if includes_str text k1 \<or> includes_str text k2 \<or> includes_str text k3 then [tag] else [])"
  by (simp add: areaRule_def push_simps explain_simps)

lemma areaRule_priority: "priorityL (areaRule k1 k2 k3 tag f text s) = priorityL s"
  by (simp add: areaRule_def push_simps explain_simps)

lemma areaRule_reasoning:
  "\<exists>r. reasoningL (areaRule k1 k2 k3 tag f text s) = reasoningL s @ r"
  by (simp add: areaRule_def push_simps explain_simps)

lemma grows_refl: "grows s s"
  by (simp add: grows_def)

lemma grows_trans:
  assumes "grows s s'" and "grows s' s''"
  shows "grows s s''"
proof -
  from assms obtain e1 e2 r1 r2 where
    t: "tagsL s' = tagsL s @ e1" "set e1 \<subseteq> laterTags"
       "tagsL s'' = tagsL s' @ e2" "set e2 \<subseteq> laterTags" and
    r: "reasoningL s' = reasoningL s @ r1" "reasoningL s'' = reasoningL s' @ r2"
    unfolding grows_def by blast
  have "tagsL s'' = tagsL s @ (e1 @ e2) \<and> set (e1 @ e2) \<subseteq> laterTags"
    using t by simp
  moreover have "reasoningL s'' = reasoningL s @ (r1 @ r2)"
    using r by simp
  moreover have "priorityL s'' = priorityL s"
    using assms unfolding grows_def by simp
  ultimately show ?thesis unfolding grows_def by blast
qed

lemma grows_push_explain:
  "tag \<in> laterTags \<Longrightarrow> grows s (explain f (push tag s))"
  by (simp add: grows_def push_simps explain_simps)

lemma grows_push: "tag \<in> laterTags \<Longrightarrow> grows s (push tag s)"
  by (simp add: grows_def push_simps)

lemma grows_areaRule:
  "tag \<in> laterTags \<Longrightarrow> grows s (areaRule k1 k2 k3 tag f text s)"
  by (simp add: areaRule_def grows_push_explain grows_refl)

lemma grows_areaRules: "grows s (areaRules text s)"
  unfolding areaRules_def Let_def
  by (intro grows_trans [OF _ grows_areaRule] grows_areaRule) (simp_all add: laterTags_def)

lemma grows_typeRules: "grows s (typeRules ty s)"
  by (simp add: typeRules_def grows_push grows_refl laterTags_def)

lemma grows_stateRules: "grows s (stateRules st s)"
  by (simp add: stateRules_def grows_push_explain grows_refl laterTags_def)

lemma grows_later:
  "grows s (stateRules st (typeRules ty (areaRules text s)))"
  by (blast intro: grows_trans grows_areaRules grows_typeRules grows_stateRules)

lemma areaRules_priority: "priorityL (areaRules text s) = priorityL s"
  by (simp add: areaRules_def Let_def areaRule_priority)

lemma areaRule_tags_cong:
  "tagsL s = tagsL s' \<Longrightarrow>
   tagsL (areaRule k1 k2 k3 tag f text s) = tagsL (areaRule k1 k2 k3 tag f text s')"
  by (simp add: areaRule_tags)

lemma areaRules_tags_cong:
  "tagsL s = tagsL s' \<Longrightarrow> tagsL (areaRules text s) = tagsL (areaRules text s')"
  unfolding areaRules_def Let_def by (intro areaRule_tags_cong)

lemma typeRules_tags_cong:
  "tagsL s = tagsL s' \<Longrightarrow> tagsL (typeRules ty s) = tagsL (typeRules ty s')"
  by (simp add: typeRules_def push_simps)

lemma stateRules_tags_cong:
  "tagsL s = tagsL s' \<Longrightarrow> tagsL (stateRules st s) = tagsL (stateRules st s')"
  by (simp add: stateRules_def push_simps explain_simps)

lemma later_tags_cong:
  "tagsL s = tagsL s' \<Longrightarrow>
   tagsL (stateRules st (typeRules ty (areaRules text s))) =
   tagsL (stateRules st (typeRules ty (areaRules text s')))"
  by (intro stateRules_tags_cong typeRules_tags_cong areaRules_tags_cong)

lemma priorityRules_initial:
  "priorityRules ty text initialLocals =
     (if criticalKeywords ty text then
        \<lparr>tagsL = [''Critical''], priorityL = Critical,
         reasoningL = ''Critical priority due to severity keywords. ''\<rparr>
      else if highKeywords text then
        \<lparr>tagsL = [''HighPriority''], priorityL = High,
         reasoningL = ''High priority due to urgency indicators. ''\<rparr>
      else if lowKeywords text then
        \<lparr>tagsL = [], priorityL = Low,
         reasoningL = ''Low priority - non-critical enhancement. ''\<rparr>
      else initialLocals)"
  by (simp add: priorityRules_def initialLocals_def push_def explain_def)

lemma runRules_grows:
  "grows (priorityRules (type w) (haystack w) initialLocals) (runRules w)"
  unfolding runRules_def by (rule grows_later)

lemma classify_fields:
  "workItemId (classifyWorkItem w) = id_w w"
  "suggestedTags (classifyWorkItem w) = tagsL (runRules w)"
  "suggestedPriority (classifyWorkItem w) = priorityL (runRules w)"
  "confidence (classifyWorkItem w) = min 0.95 (0.6 + real (length (tagsL (runRules w))) * 0.1)"
  "reasoning (classifyWorkItem w) =
     (if trim (reasoningL (runRules w)) = [] then ''Standard classification applied.''
      else trim (reasoningL (runRules w)))"
  by (simp_all add: classifyWorkItem_def Let_def)

lemma dropWhile_keep:
  "\<not> P c \<Longrightarrow> dropWhile P (xs @ c # ys) = dropWhile P xs @ c # ys"
  by (induction xs) auto

lemma trim_keeps_prefix:
  assumes "\<not> isWhiteSpace a" and "\<not> isWhiteSpace c"
  shows "\<exists>rest. trim (a # xs @ c # zs) = a # xs @ c # rest"
proof -
  have "rev (a # xs @ c # zs) = rev zs @ c # (rev xs @ [a])" by simp
  then have "dropWhile isWhiteSpace (rev (a # xs @ c # zs)) =
      dropWhile isWhiteSpace (rev zs) @ c # (rev xs @ [a])"
    using assms(2) by (simp add: dropWhile_keep)
  then have "rev (dropWhile isWhiteSpace (rev (a # xs @ c # zs))) =
      a # xs @ c # rev (dropWhile isWhiteSpace (rev zs))"
    by simp
  then show ?thesis using assms(1) by (simp add: trim_def)
qed

lemma priority_tag_iff:
  "''Critical'' \<in> set (tagsL (runRules w)) \<longleftrightarrow> criticalKeywords (type w) (haystack w)"
  "''HighPriority'' \<in> set (tagsL (runRules w)) \<longleftrightarrow>
     \<not> criticalKeywords (type w) (haystack w) \<and> highKeywords (haystack w)"
proof -
  obtain extra where e: "tagsL (runRules w) =
      tagsL (priorityRules (type w) (haystack w) initialLocals) @ extra"
      "set extra \<subseteq> laterTags"
    using runRules_grows [of w] unfolding grows_def by blast
  have n: "''Critical'' \<notin> set extra" "''HighPriority'' \<notin> set extra"
    using e(2) by (auto simp: laterTags_def)
  show "''Critical'' \<in> set (tagsL (runRules w)) \<longleftrightarrow> criticalKeywords (type w) (haystack w)"
    using n unfolding e(1) priorityRules_initial by (simp add: initialLocals_def)
  show "''HighPriority'' \<in> set (tagsL (runRules w)) \<longleftrightarrow>
     \<not> criticalKeywords (type w) (haystack w) \<and> highKeywords (haystack w)"
    using n unfolding e(1) priorityRules_initial by (simp add: initialLocals_def)
qed

lemma runRules_priority:
  "priorityL (runRules w) =
     (if criticalKeywords (type w) (haystack w) then Critical
      else if highKeywords (haystack w) then High
      else if lowKeywords (haystack w) then Low else Medium)"
proof -
  have "priorityL (runRules w) = priorityL (priorityRules (type w) (haystack w) initialLocals)"
    using runRules_grows [of w] unfolding grows_def by simp
  then show ?thesis unfolding priorityRules_initial by (simp add: initialLocals_def)
qed

section \<open>The classifier: priority tiers, tags and confidence\<close>

lemmas classify_defs =
  classifyWorkItem_def runRules_def haystack_def toLowerCase_def toLowerChar_def
  initialLocals_def priorityRules_def criticalKeywords_def highKeywords_def lowKeywords_def
  areaRules_def areaRule_def typeRules_def stateRules_def push_def explain_def Let_def
  trim_def isWhiteSpace_def

text \<open>
  Claim C1. When the haystack of a work item contains one of "critical",
  "production down", "security", "data loss", or the item is a Bug and the haystack
  contains "blocker", the suggested priority is Critical and "Critical" is one of the
  suggested tags. The tiers are tried in the order Critical, High, Low, and the first
  whose condition holds decides (\<open>criticalKeywords\<close> is the condition above), Medium
  being the default; the tags "Critical" and "HighPriority" never occur together in one
  result.
\<close>

theorem classify_priority_tiers:
  fixes w :: WorkItem
  shows "(includes_str (haystack w) ''critical'' \<or> includes_str (haystack w) ''production down'' \<or>
          includes_str (haystack w) ''security'' \<or> includes_str (haystack w) ''data loss'' \<or>
          (type w = Bug \<and> includes_str (haystack w) ''blocker'') \<longrightarrow>
           suggestedPriority (classifyWorkItem w) = Critical \<and>
           ''Critical'' \<in> set (suggestedTags (classifyWorkItem w))) \<and>
         suggestedPriority (classifyWorkItem w) =
           (if criticalKeywords (type w) (haystack w) then Critical
            else if highKeywords (haystack w) then High
            else if lowKeywords (haystack w) then Low else Medium) \<and>
         \<not> (''Critical'' \<in> set (suggestedTags (classifyWorkItem w)) \<and>
            ''HighPriority'' \<in> set (suggestedTags (classifyWorkItem w)))"
proof -
  have "criticalKeywords (type w) (haystack w) \<longrightarrow>
      suggestedPriority (classifyWorkItem w) = Critical \<and>
      ''Critical'' \<in> set (suggestedTags (classifyWorkItem w))"
    by (simp add: classify_fields priority_tag_iff runRules_priority)
  then have "includes_str (haystack w) ''critical'' \<or> includes_str (haystack w) ''production down'' \<or>
          includes_str (haystack w) ''security'' \<or> includes_str (haystack w) ''data loss'' \<or>
          (type w = Bug \<and> includes_str (haystack w) ''blocker'') \<longrightarrow>
           suggestedPriority (classifyWorkItem w) = Critical \<and>
           ''Critical'' \<in> set (suggestedTags (classifyWorkItem w))"
    unfolding criticalKeywords_def .
  moreover have "suggestedPriority (classifyWorkItem w) =
           (if criticalKeywords (type w) (haystack w) then Critical
            else if highKeywords (haystack w) then High
            else if lowKeywords (haystack w) then Low else Medium)"
    by (simp add: classify_fields runRules_priority)
  moreover have "\<not> (''Critical'' \<in> set (suggestedTags (classifyWorkItem w)) \<and>
            ''HighPriority'' \<in> set (suggestedTags (classifyWorkItem w)))"
    by (simp add: classify_fields priority_tag_iff)
  ultimately show ?thesis by (intro conjI)
qed

theorem classify_priority_tiers_witness:
  "includes_str (haystack itemOutage) ''production down'' \<and>
   criticalKeywords (type itemOutage) (haystack itemOutage) \<and>
   suggestedPriority (classifyWorkItem itemOutage) = Critical \<and>
   ''Critical'' \<in> set (suggestedTags (classifyWorkItem itemOutage))"
proof -
  have h: "includes_str (haystack itemOutage) ''production down''"
    by (simp add: haystack_def toLowerCase_def toLowerChar_def)
  then have c: "criticalKeywords (type itemOutage) (haystack itemOutage)"
    unfolding criticalKeywords_def by blast
  from classify_priority_tiers [of itemOutage] h c show ?thesis by blast
qed

text \<open>
  Claim C2, as the code has it. The claim asks for a priority-tier tag in the Low tier;
  the Low branch of the chain only sets the priority and extends the reasoning. On the
  work item titled "Cosmetic" the Low tier matches, no tag at all is suggested and the
  confidence is 0.6, the value for zero tags.
\<close>

theorem classify_low_counterexample:
  "lowKeywords (haystack itemCosmetic) \<and>
   \<not> criticalKeywords (type itemCosmetic) (haystack itemCosmetic) \<and>
   \<not> highKeywords (haystack itemCosmetic) \<and>
   suggestedPriority (classifyWorkItem itemCosmetic) = Low \<and>
   suggestedTags (classifyWorkItem itemCosmetic) = [] \<and>
   confidence (classifyWorkItem itemCosmetic) = 0.6"
  by (simp add: classify_defs)

text \<open>
  Claim C2, amended. When the haystack contains a Low keyword and no Critical or High
  condition holds, the suggested priority is Low and the reasoning starts with the
  fragment of the Low tier, but the tier pushes no tag: the suggested tags are exactly
  those that the area, type and state rules give on their own, neither "Critical" nor
  "HighPriority" is among them, and the confidence counts those tags only.
\<close>

theorem classify_low_tier:
  fixes w :: WorkItem
  assumes "lowKeywords (haystack w)"
    and "\<not> criticalKeywords (type w) (haystack w)"
    and "\<not> highKeywords (haystack w)"
  shows "suggestedPriority (classifyWorkItem w) = Low \<and>
         suggestedTags (classifyWorkItem w) =
           tagsL (stateRules (state w) (typeRules (type w) (areaRules (haystack w) initialLocals))) \<and>
         ''Critical'' \<notin> set (suggestedTags (classifyWorkItem w)) \<and>
         ''HighPriority'' \<notin> set (suggestedTags (classifyWorkItem w)) \<and>
         (\<exists>rest. reasoning (classifyWorkItem w) = ''Low priority - non-critical enhancement.'' @ rest) \<and>
         confidence (classifyWorkItem w) =
           min 0.95 (0.6 + 0.1 * real (length (tagsL
             (stateRules (state w) (typeRules (type w) (areaRules (haystack w) initialLocals))))))"
proof -
  let ?p = "priorityRules (type w) (haystack w) initialLocals"
  have p: "?p = \<lparr>tagsL = [], priorityL = Low,
      reasoningL = ''Low priority - non-critical enhancement. ''\<rparr>"
    using assms unfolding priorityRules_initial by simp
  have t: "tagsL (runRules w) =
      tagsL (stateRules (state w) (typeRules (type w) (areaRules (haystack w) initialLocals)))"
  proof -
    have "tagsL ?p = []" by (simp add: p)
    moreover have "tagsL initialLocals = []" by (simp add: initialLocals_def)
    ultimately have "tagsL ?p = tagsL initialLocals" by simp
    then show ?thesis unfolding runRules_def by (rule later_tags_cong)
  qed
  obtain r where r: "reasoningL (runRules w) = reasoningL ?p @ r"
    using runRules_grows [of w] unfolding grows_def by blast
  have "\<exists>rest. trim (reasoningL (runRules w)) =
      ''Low priority - non-critical enhancement.'' @ rest"
    using trim_keeps_prefix [of "CHR ''L''" "CHR ''.''" "''ow priority - non-critical enhancement''" "'' '' @ r"]
    by (simp add: r p isWhiteSpace_def)
  then obtain rest where rest: "trim (reasoningL (runRules w)) =
      ''Low priority - non-critical enhancement.'' @ rest" by blast
  have "reasoning (classifyWorkItem w) = ''Low priority - non-critical enhancement.'' @ rest"
    by (simp add: classify_fields rest)
  moreover have "suggestedPriority (classifyWorkItem w) = Low"
    using assms by (simp add: classify_fields runRules_priority)
  moreover have "''Critical'' \<notin> set (suggestedTags (classifyWorkItem w))"
    "''HighPriority'' \<notin> set (suggestedTags (classifyWorkItem w))"
    using assms by (simp_all add: classify_fields priority_tag_iff)
  moreover have "suggestedTags (classifyWorkItem w) =
      tagsL (stateRules (state w) (typeRules (type w) (areaRules (haystack w) initialLocals)))"
    by (simp add: classify_fields t)
  moreover have "confidence (classifyWorkItem w) =
      min 0.95 (0.6 + 0.1 * real (length (tagsL
        (stateRules (state w) (typeRules (type w) (areaRules (haystack w) initialLocals))))))"
    by (simp add: classify_fields t)
  ultimately show ?thesis by blast
qed

theorem classify_low_tier_witness:
  "lowKeywords (haystack itemCosmetic) \<and>
   \<not> criticalKeywords (type itemCosmetic) (haystack itemCosmetic) \<and>
   \<not> highKeywords (haystack itemCosmetic) \<and>
   suggestedPriority (classifyWorkItem itemCosmetic) = Low \<and>
   ''Critical'' \<notin> set (suggestedTags (classifyWorkItem itemCosmetic)) \<and>
   (\<exists>rest. reasoning (classifyWorkItem itemCosmetic) =
      ''Low priority - non-critical enhancement.'' @ rest)"
proof -
  have h: "lowKeywords (haystack itemCosmetic)"
    "\<not> criticalKeywords (type itemCosmetic) (haystack itemCosmetic)"
    "\<not> highKeywords (haystack itemCosmetic)"
    by (simp_all add: classify_defs)
  from classify_low_tier [OF h] h show ?thesis by blast
qed

text \<open>
  Claim C3. The confidence of every result is the minimum of 0.95 and 0.6 plus 0.1 for
  each suggested tag of that result; it lies between 0 and 0.95, and a result with at
  least as many tags as another has at least its confidence.
\<close>

theorem classify_confidence_formula:
  fixes w w' :: WorkItem
  shows "confidence (classifyWorkItem w) =
           min 0.95 (0.6 + 0.1 * real (length (suggestedTags (classifyWorkItem w)))) \<and>
         0 \<le> confidence (classifyWorkItem w) \<and> confidence (classifyWorkItem w) \<le> 0.95 \<and>
         (length (suggestedTags (classifyWorkItem w)) \<le> length (suggestedTags (classifyWorkItem w'))
            \<longrightarrow> confidence (classifyWorkItem w) \<le> confidence (classifyWorkItem w'))"
  by (simp add: classify_fields min_def)

theorem classify_confidence_formula_witness:
  "length (suggestedTags (classifyWorkItem itemCosmetic)) \<le>
     length (suggestedTags (classifyWorkItem itemOutage)) \<and>
   confidence (classifyWorkItem itemCosmetic) \<le> confidence (classifyWorkItem itemOutage)"
proof -
  have h: "length (suggestedTags (classifyWorkItem itemCosmetic)) \<le>
     length (suggestedTags (classifyWorkItem itemOutage))"
    by (simp add: classify_defs)
  from classify_confidence_formula [of itemCosmetic itemOutage] h show ?thesis by blast
qed

text \<open>
  Claim C4, as the code has it. The result carries the \<^verbatim>\<open>id\<close> of the work
  item in \<open>workItemId\<close>, so two work items that agree on title, description, type
  and state but not on the identifier have different results.
\<close>

theorem classify_inputs_counterexample:
  "title itemCosmetic = title itemCosmeticCopy \<and>
   description itemCosmetic = description itemCosmeticCopy \<and>
   type itemCosmetic = type itemCosmeticCopy \<and>
   state itemCosmetic = state itemCosmeticCopy \<and>
   classifyWorkItem itemCosmetic \<noteq> classifyWorkItem itemCosmeticCopy"
  by (simp add: classifyWorkItem_def Let_def)

text \<open>
  Claim C4, amended. The classifier is a function (total, without effects) and its result
  depends on the fields \<^verbatim>\<open>id\<close>, title, description, type and state only: for two
  work items that agree on title, description, type and state, the results agree on the
  suggested tags, the suggested priority, the confidence and the reasoning, and each
  result carries the identifier of its own work item. The fields assignedTo, tags,
  priority, sprint and url have no influence.
\<close>

theorem classify_inputs:
  fixes w w' :: WorkItem
  assumes "title w = title w'" and "description w = description w'"
    and "type w = type w'" and "state w = state w'"
  shows "classifyWorkItem w = (classifyWorkItem w')\<lparr>workItemId := id_w w\<rparr>"
  using assms by (simp add: classifyWorkItem_def runRules_def haystack_def Let_def)

theorem classify_inputs_witness:
  "title itemCosmetic = title itemCosmeticCopy \<and>
   description itemCosmetic = description itemCosmeticCopy \<and>
   type itemCosmetic = type itemCosmeticCopy \<and>
   state itemCosmetic = state itemCosmeticCopy \<and>
   classifyWorkItem itemCosmetic = (classifyWorkItem itemCosmeticCopy)\<lparr>workItemId := 2\<rparr>"
proof -
  have h: "title itemCosmetic = title itemCosmeticCopy"
    "description itemCosmetic = description itemCosmeticCopy"
    "type itemCosmetic = type itemCosmeticCopy"
    "state itemCosmetic = state itemCosmeticCopy"
    by simp_all
  from classify_inputs [OF h] h show ?thesis by simp
qed

text \<open>
  Claim C10. The confidence of every result is at least 0.6, and at most 0.95.
\<close>

theorem classify_confidence_at_least:
  fixes w :: WorkItem
  shows "0.6 \<le> confidence (classifyWorkItem w) \<and> confidence (classifyWorkItem w) \<le> 0.95"
proof -
  have "(0::real) \<le> real (length (tagsL (runRules w))) * 0.1" by simp
  then have "(0.6::real) \<le> 0.6 + real (length (tagsL (runRules w))) * 0.1" by simp
  then have "(0.6::real) \<le> min 0.95 (0.6 + real (length (tagsL (runRules w))) * 0.1)"
    by (intro min.boundedI) simp_all
  moreover have "min 0.95 (0.6 + real (length (tagsL (runRules w))) * 0.1) \<le> (0.95::real)"
    by (rule min.cobounded1)
  ultimately show ?thesis unfolding classify_fields by blast
qed

section \<open>Properties of the store\<close>

lemma map_of_Map_set: "map_of (Map_set k v m) = (map_of m)(k \<mapsto> v)"
  by (induction m) (auto simp: fun_eq_iff)

lemma keys_Map_set_old: "k \<in> fst ` set m \<Longrightarrow> map fst (Map_set k v m) = map fst m"
  by (induction m) force+

lemma keys_Map_set_new: "k \<notin> fst ` set m \<Longrightarrow> map fst (Map_set k v m) = map fst m @ [k]"
  by (induction m) auto

lemma keys_Map_set:
  "map fst (Map_set k v m) = (if k \<in> fst ` set m then map fst m else map fst m @ [k])"
  using keys_Map_set_old [of k m v] keys_Map_set_new [of k m v] by simp

lemma distinct_Map_set: "distinct (map fst m) \<Longrightarrow> distinct (map fst (Map_set k v m))"
  by (simp add: keys_Map_set)


lemma set_Map_set: "set (Map_set k v m) \<subseteq> insert (k, v) (set m)"
  by (induction m) (auto split: if_splits)

lemma list_all_Map_set: "list_all P m \<Longrightarrow> P (k, v) \<Longrightarrow> list_all P (Map_set k v m)"
  using set_Map_set [of k v m] by (auto simp: list_all_iff)

lemma set_keys_Map_set: "fst ` set (Map_set k v m) = insert k (fst ` set m)"
proof -
  have "set (map fst (Map_set k v m)) = insert k (set (map fst m))"
    unfolding keys_Map_set by auto
  then show ?thesis by simp
qed

lemma keys_foldl_Map_set:
  "fst ` set (foldl (\<lambda>m x. Map_set (key x) x m) m xs) = fst ` set m \<union> key ` set xs"
proof (induction xs arbitrary: m)
  case Nil
  show ?case by simp
next
  case (Cons x xs)
  have "fst ` set (foldl (\<lambda>m x. Map_set (key x) x m) (Map_set (key x) x m) xs) =
      fst ` set (Map_set (key x) x m) \<union> key ` set xs"
    by (rule Cons.IH)
  then show ?case by (simp add: set_keys_Map_set)
qed

lemma distinct_foldl_Map_set:
  "distinct (map fst m) \<Longrightarrow> distinct (map fst (foldl (\<lambda>m x. Map_set (key x) x m) m xs))"
  by (induction xs arbitrary: m) (auto simp: distinct_Map_set)

lemma map_of_foldl_Map_set:
  "map_of (foldl (\<lambda>m x. Map_set (key x) x m) m xs) i =
     (case filter (\<lambda>x. key x = i) xs of [] \<Rightarrow> map_of m i | y # ys \<Rightarrow> Some (last (y # ys)))"
proof (induction xs arbitrary: m)
  case Nil
  then show ?case by simp
next
  case (Cons x xs)
  show ?case
    by (simp add: Cons.IH map_of_Map_set split: list.splits)
qed

lemma map_of_wellFormed:
  assumes "wellFormed sprints" and "map_of sprints name = Some st"
  shows "sprintName st = name" "distinct (map fst (workItems st))"
    "distinct (map fst (classifications st))"
proof -
  have "(name, st) \<in> set sprints" using assms(2) by (rule map_of_SomeD)
  then have "sprintName st = name \<and> distinct (map fst (workItems st)) \<and>
      distinct (map fst (classifications st))"
    using assms(1) by (auto simp: wellFormed_def list_all_iff)
  then show "sprintName st = name" "distinct (map fst (workItems st))"
    "distinct (map fst (classifications st))" by simp_all
qed

lemma wellFormed_Map_set:
  assumes "wellFormed sprints" and "sprintName st = name"
    and "distinct (map fst (workItems st))" and "distinct (map fst (classifications st))"
  shows "wellFormed (Map_set name st sprints)"
  using assms unfolding wellFormed_def
  by (simp add: distinct_Map_set list_all_Map_set)

lemma getOrCreate_cases:
  obtains (known) st where "map_of sprints name = Some st"
      "getOrCreateSprintState now name sprints = (st, sprints)"
  | (new) "map_of sprints name = None"
      "getOrCreateSprintState now name sprints =
         (\<lparr>sprintName = name, workItems = [], lastSyncTime = Date now, classifications = []\<rparr>,
          Map_set name
            \<lparr>sprintName = name, workItems = [], lastSyncTime = Date now, classifications = []\<rparr>
            sprints)"
  by (cases "map_of sprints name") (simp_all add: getOrCreateSprintState_def Let_def)

lemma getOrCreate_wellFormed:
  assumes "wellFormed sprints"
    and "getOrCreateSprintState now name sprints = (st, sprints')"
  shows "wellFormed sprints'" "map_of sprints' name = Some st" "sprintName st = name"
    "distinct (map fst (workItems st))" "distinct (map fst (classifications st))"
proof -
  have "wellFormed sprints' \<and> map_of sprints' name = Some st"
  proof (cases rule: getOrCreate_cases [of sprints name now])
    case (known st0)
    then show ?thesis using assms by simp
  next
    case new
    then show ?thesis using assms by (auto simp: wellFormed_Map_set map_of_Map_set)
  qed
  then show "wellFormed sprints'" "map_of sprints' name = Some st" by simp_all
  then show "sprintName st = name" "distinct (map fst (workItems st))"
    "distinct (map fst (classifications st))"
    by (rule map_of_wellFormed)+
qed

lemma wellFormed_updateWorkItems:
  assumes "wellFormed sprints"
  shows "wellFormed (updateWorkItems created now name items sprints)"
proof -
  obtain st sprints' where g: "getOrCreateSprintState created name sprints = (st, sprints')"
    by (cases "getOrCreateSprintState created name sprints")
  note w = getOrCreate_wellFormed [OF assms g]
  show ?thesis
    unfolding updateWorkItems_def g
    by (simp add: Let_def w wellFormed_Map_set distinct_foldl_Map_set)
qed

lemma wellFormed_storeClassifications:
  assumes "wellFormed sprints"
  shows "wellFormed (storeClassifications created name results sprints)"
proof -
  obtain st sprints' where g: "getOrCreateSprintState created name sprints = (st, sprints')"
    by (cases "getOrCreateSprintState created name sprints")
  note w = getOrCreate_wellFormed [OF assms g]
  show ?thesis
    unfolding storeClassifications_def g
    by (simp add: Let_def w wellFormed_Map_set distinct_foldl_Map_set)
qed

lemma addEntry_distinct:
  "addEntry dec kv (Some m) = Some m' \<Longrightarrow> distinct (map fst m) \<Longrightarrow> distinct (map fst m')"
  by (cases kv) (auto simp: distinct_Map_set split: option.splits)

lemma newMapFrom_None: "newMapFrom dec es None \<noteq> Inr (Some m')"
proof (induction es)
  case Nil
  then show ?case by simp
next
  case (Cons e es)
  then show ?case by (cases "mapEntry e") (auto split: prod.splits)
qed

lemma newMapFrom_distinct:
  "newMapFrom dec es (Some m) = Inr (Some m') \<Longrightarrow> distinct (map fst m) \<Longrightarrow>
   distinct (map fst m')"
proof (induction es arbitrary: m)
  case Nil
  then show ?case by simp
next
  case (Cons e es)
  from Cons.prems(1) obtain kv where kv: "mapEntry e = Inr kv"
    and r: "newMapFrom dec es (addEntry dec kv (Some m)) = Inr (Some m')"
    by (cases "mapEntry e") auto
  show ?case
  proof (cases "addEntry dec kv (Some m)")
    case None
    with r show ?thesis by (simp add: newMapFrom_None)
  next
    case (Some m1)
    then have "distinct (map fst m1)" using Cons.prems(2) by (rule addEntry_distinct)
    with Cons.IH r Some show ?thesis by simp
  qed
qed

lemma newMap_distinct: "newMap dec x = Inr (Some m) \<Longrightarrow> distinct (map fst m)"
proof (induction dec x rule: newMap.induct)
  case (3 dec es)
  then show ?case using newMapFrom_distinct [of dec es "[]" m] by simp
qed (auto split: if_splits)

lemma setSprint_Some:
  assumes "setSprint n ws cs d sprints = Some s'"
  obtains name ws' cs' d' s where "n = Some name" "ws = Some ws'" "cs = Some cs'" "d = Some d'"
    "sprints = Some s"
    "s' = Map_set name \<lparr>sprintName = name, workItems = ws', lastSyncTime = d',
       classifications = cs'\<rparr> s"
  using assms by (cases "(n, ws, cs, d, sprints)" rule: setSprint.cases) auto

lemma importSprint_wellFormed:
  assumes "importSprint x (Some s) = Inr (Some s')" and "wellFormed s"
  shows "wellFormed s'"
proof -
  from assms(1) obtain n ws cs where
    ws: "newMap asWorkItem (member x ''workItems'') = Inr ws" and
    cs: "newMap asClassification (member x ''classifications'') = Inr cs" and
    s': "setSprint n ws cs (newDate (member x ''lastSyncTime'')) (Some s) = Some s'"
    unfolding importSprint_def by (auto split: sum.splits)
  from s' show ?thesis
  proof (cases rule: setSprint_Some)
    case (1 name ws' cs' d' s0)
    then have "distinct (map fst ws')" "distinct (map fst cs')"
      using ws cs by (auto dest: newMap_distinct)
    then show ?thesis using 1 assms(2) by (simp add: wellFormed_Map_set)
  qed
qed

lemma importSprint_None: "importSprint x None \<noteq> Inr (Some s')"
  unfolding importSprint_def by (auto split: sum.splits elim: setSprint_Some)

lemma importSprints_None: "importSprints xs None = Untyped"
proof (induction xs)
  case Nil
  then show ?case by simp
next
  case (Cons x xs)
  show ?case
  proof (cases "importSprint x None")
    case (Inl e)
    then show ?thesis by simp
  next
    case (Inr r)
    then have "r = None" using importSprint_None [of x] by (cases r) auto
    with Inr Cons.IH show ?thesis by simp
  qed
qed

lemma importSprints_wellFormed:
  assumes "wellFormed s"
  shows "importSprints xs (Some s) = Returns s' \<Longrightarrow> wellFormed s'"
    and "importSprints xs (Some s) = Throws e s' \<Longrightarrow> wellFormed s'"
  using assms
proof (induction xs arbitrary: s)
  case Nil
  { case 1 then show ?case by simp }
  { case 2 then show ?case by simp }
next
  case (Cons x xs)
  { case 1
    show ?case
    proof (cases "importSprint x (Some s)")
      case (Inl err)
      with 1 show ?thesis by simp
    next
      case (Inr r)
      show ?thesis
      proof (cases r)
        case None
        with Inr 1 show ?thesis by (simp add: importSprints_None)
      next
        case (Some s1)
        with Inr 1 have "wellFormed s1" by (auto intro: importSprint_wellFormed)
        with Cons.IH(1) [of s1] Inr Some 1 show ?thesis by simp
      qed
    qed }
  { case 2
    show ?case
    proof (cases "importSprint x (Some s)")
      case (Inl err)
      with 2 show ?thesis by simp
    next
      case (Inr r)
      show ?thesis
      proof (cases r)
        case None
        with Inr 2 show ?thesis by (simp add: importSprints_None)
      next
        case (Some s1)
        with Inr 2 have "wellFormed s1" by (auto intro: importSprint_wellFormed)
        with Cons.IH(2) [of s1] Inr Some 2 show ?thesis by simp
      qed
    qed }
qed

lemma wellFormed_Nil: "wellFormed []"
  by (simp add: wellFormed_def)

lemma importState_wellFormed:
  assumes "wellFormed s"
  shows "importState j s = Returns s' \<Longrightarrow> wellFormed s'"
    and "importState j s = Throws e s' \<Longrightarrow> wellFormed s'"
proof -
  show "importState j s = Returns s' \<Longrightarrow> wellFormed s'"
    unfolding importState_def Let_def
    by (auto split: option.splits sum.splits json.splits
        dest: importSprints_wellFormed(1) [OF wellFormed_Nil])
  show "importState j s = Throws e s' \<Longrightarrow> wellFormed s'"
    unfolding importState_def Let_def using assms
    by (auto split: option.splits sum.splits json.splits simp: wellFormed_Nil
        dest: importSprints_wellFormed(2) [OF wellFormed_Nil])
qed

lemma wellFormed_keysDistinct: "wellFormed s \<Longrightarrow> keysDistinct s"
  unfolding wellFormed_def keysDistinct_def by (auto simp: list_all_iff)

subsection \<open>Export followed by import\<close>











lemma keysDistinct_lookup:
  assumes "keysDistinct s" and "map_of s name = Some st"
  shows "distinct (map fst (workItems st))" "distinct (map fst (classifications st))"
proof -
  have "(name, st) \<in> set s" using assms(2) by (rule map_of_SomeD)
  then have "distinct (map fst (workItems st)) \<and> distinct (map fst (classifications st))"
    using assms(1) by (auto simp: keysDistinct_def list_all_iff)
  then show "distinct (map fst (workItems st))" "distinct (map fst (classifications st))"
    by simp_all
qed

subsection \<open>Lookups after the writing methods\<close>

lemmas store_defs =
  getOrCreateSprintState_def updateWorkItems_def storeClassifications_def getWorkItems_def
  getClassifications_def getAllSprints_def getSprintStats_def Let_def


lemma getOrCreate_fst:
  "fst (getOrCreateSprintState now name s) =
     (case map_of s name of
        None \<Rightarrow> \<lparr>sprintName = name, workItems = [], lastSyncTime = Date now, classifications = []\<rparr>
      | Some st \<Rightarrow> st)"
  by (simp add: getOrCreateSprintState_def Let_def split: option.splits)

lemma map_of_getOrCreate:
  "map_of (snd (getOrCreateSprintState now name s)) =
     (map_of s)(name \<mapsto> fst (getOrCreateSprintState now name s))"
  by (auto simp: getOrCreateSprintState_def Let_def map_of_Map_set fun_eq_iff split: option.splits)

lemma map_of_updateWorkItems:
  "map_of (updateWorkItems created now name items s) =
     (map_of s)(name \<mapsto> (fst (getOrCreateSprintState created name s))
        \<lparr>workItems := foldl (\<lambda>m wi. Map_set (id_w wi) wi m)
           (workItems (fst (getOrCreateSprintState created name s))) items,
         lastSyncTime := Date now\<rparr>)"
proof -
  obtain st s' where g: "getOrCreateSprintState created name s = (st, s')"
    by (cases "getOrCreateSprintState created name s")
  have "map_of s' = (map_of s)(name \<mapsto> st)"
    using map_of_getOrCreate [of created name s] by (simp add: g)
  then show ?thesis
    by (simp add: updateWorkItems_def g Let_def map_of_Map_set)
qed

lemma map_of_storeClassifications:
  "map_of (storeClassifications created name results s) =
     (map_of s)(name \<mapsto> (fst (getOrCreateSprintState created name s))
        \<lparr>classifications := foldl (\<lambda>m c. Map_set (workItemId c) c m)
           (classifications (fst (getOrCreateSprintState created name s))) results\<rparr>)"
proof -
  obtain st s' where g: "getOrCreateSprintState created name s = (st, s')"
    by (cases "getOrCreateSprintState created name s")
  have "map_of s' = (map_of s)(name \<mapsto> st)"
    using map_of_getOrCreate [of created name s] by (simp add: g)
  then show ?thesis
    by (simp add: storeClassifications_def g Let_def map_of_Map_set)
qed

lemma getProp_error: "getProp v key = Inl e \<Longrightarrow> e = TypeError"
  by (cases v) (simp_all add: getProp_def)

lemma map_of_foldl_hit:
  assumes "x \<in> set xs"
  shows "map_of (foldl (\<lambda>m x. Map_set (key x) x m) m xs) (key x) =
     Some (last (filter (\<lambda>y. key y = key x) xs))"
proof -
  have "x \<in> set (filter (\<lambda>y. key y = key x) xs)" using assms by simp
  then obtain y ys where "filter (\<lambda>y. key y = key x) xs = y # ys"
    by (cases "filter (\<lambda>y. key y = key x) xs") auto
  then show ?thesis by (simp add: map_of_foldl_Map_set)
qed

lemma map_of_foldl_miss:
  assumes "i \<notin> key ` set xs"
  shows "map_of (foldl (\<lambda>m x. Map_set (key x) x m) m xs) i = map_of m i"
proof -
  have "filter (\<lambda>y. key y = i) xs = []" using assms by (auto simp: filter_empty_conv)
  then show ?thesis by (simp add: map_of_foldl_Map_set)
qed

section \<open>The store: claims\<close>




text \<open>
  Claim C6. \<open>storeClassifications\<close> gets or creates the state of the sprint and then
  leaves its \<^verbatim>\<open>lastSyncTime\<close> and its work items as they are; in the
  classifications, an identifier that occurs in the results maps to the last result with
  that identifier, every other identifier maps as before; other sprints are not touched.
  The state of an unknown sprint is created empty, that of a known sprint is the stored
  one. \<open>updateWorkItems\<close> sets \<^verbatim>\<open>lastSyncTime\<close> to the time of the call,
  whatever the items are, also when there are none.
\<close>

theorem storeClassifications_frame:
  "(\<exists>st'. map_of (storeClassifications created name results s) name = Some st' \<and>
      lastSyncTime st' = lastSyncTime (fst (getOrCreateSprintState created name s)) \<and>
      workItems st' = workItems (fst (getOrCreateSprintState created name s)) \<and>
      (\<forall>i. map_of (classifications st') i =
         (case filter (\<lambda>c. workItemId c = i) results of
            [] \<Rightarrow> map_of (classifications (fst (getOrCreateSprintState created name s))) i
          | c # cs \<Rightarrow> Some (last (c # cs))))) \<and>
   (map_of s name = None \<longrightarrow>
      fst (getOrCreateSprintState created name s) =
        \<lparr>sprintName = name, workItems = [], lastSyncTime = Date created, classifications = []\<rparr>) \<and>
   (\<forall>st. map_of s name = Some st \<longrightarrow> fst (getOrCreateSprintState created name s) = st) \<and>
   (\<forall>other. other \<noteq> name \<longrightarrow>
      map_of (storeClassifications created name results s) other = map_of s other) \<and>
   (\<exists>st'. map_of (updateWorkItems created now name items s) name = Some st' \<and>
      lastSyncTime st' = Date now)"
proof (intro conjI)
  let ?st0 = "fst (getOrCreateSprintState created name s)"
  let ?st' = "?st0\<lparr>classifications :=
      foldl (\<lambda>m c. Map_set (workItemId c) c m) (classifications ?st0) results\<rparr>"
  have "map_of (storeClassifications created name results s) name = Some ?st'"
    by (simp add: map_of_storeClassifications)
  moreover have "lastSyncTime ?st' = lastSyncTime ?st0" "workItems ?st' = workItems ?st0"
    by simp_all
  moreover have "\<forall>i. map_of (classifications ?st') i =
      (case filter (\<lambda>c. workItemId c = i) results of
         [] \<Rightarrow> map_of (classifications ?st0) i
       | c # cs \<Rightarrow> Some (last (c # cs)))"
    by (simp add: map_of_foldl_Map_set)
  ultimately show "\<exists>st'. map_of (storeClassifications created name results s) name = Some st' \<and>
      lastSyncTime st' = lastSyncTime ?st0 \<and> workItems st' = workItems ?st0 \<and>
      (\<forall>i. map_of (classifications st') i =
         (case filter (\<lambda>c. workItemId c = i) results of
            [] \<Rightarrow> map_of (classifications ?st0) i
          | c # cs \<Rightarrow> Some (last (c # cs))))"
    by blast
next
  show "map_of s name = None \<longrightarrow>
      fst (getOrCreateSprintState created name s) =
        \<lparr>sprintName = name, workItems = [], lastSyncTime = Date created, classifications = []\<rparr>"
    by (simp add: getOrCreate_fst)
next
  show "\<forall>st. map_of s name = Some st \<longrightarrow> fst (getOrCreateSprintState created name s) = st"
    by (simp add: getOrCreate_fst)
next
  show "\<forall>other. other \<noteq> name \<longrightarrow>
      map_of (storeClassifications created name results s) other = map_of s other"
    by (simp add: map_of_storeClassifications)
next
  show "\<exists>st'. map_of (updateWorkItems created now name items s) name = Some st' \<and>
      lastSyncTime st' = Date now"
    by (simp add: map_of_updateWorkItems)
qed

theorem storeClassifications_frame_witness:
  "map_of storeOne ''S1'' \<noteq> None \<and>
   (\<exists>st'. map_of (storeClassifications 20 ''S1'' [resultCosmetic] storeOne) ''S1'' = Some st' \<and>
      lastSyncTime st' = Date 11 \<and> workItems st' = [(2, itemCosmetic)]) \<and>
   (\<exists>st'. map_of (updateWorkItems 20 21 ''S1'' [] storeOne) ''S1'' = Some st' \<and>
      lastSyncTime st' = Date 21)"
proof -
  note t = storeClassifications_frame [of 20 "''S1''" "[resultCosmetic]" storeOne 21 "[]"]
  have g: "lastSyncTime (fst (getOrCreateSprintState 20 ''S1'' storeOne)) = Date 11"
    "workItems (fst (getOrCreateSprintState 20 ''S1'' storeOne)) = [(2, itemCosmetic)]"
    by (simp_all add: getOrCreate_fst)
  from t have "\<exists>st'. map_of (storeClassifications 20 ''S1'' [resultCosmetic] storeOne) ''S1'' =
      Some st' \<and>
      lastSyncTime st' = lastSyncTime (fst (getOrCreateSprintState 20 ''S1'' storeOne)) \<and>
      workItems st' = workItems (fst (getOrCreateSprintState 20 ''S1'' storeOne))"
    by blast
  then have a: "\<exists>st'. map_of (storeClassifications 20 ''S1'' [resultCosmetic] storeOne) ''S1'' =
      Some st' \<and> lastSyncTime st' = Date 11 \<and> workItems st' = [(2, itemCosmetic)]"
    unfolding g .
  from t have b: "\<exists>st'. map_of (updateWorkItems 20 21 ''S1'' [] storeOne) ''S1'' = Some st' \<and>
      lastSyncTime st' = Date 21"
    by blast
  have "map_of storeOne ''S1'' \<noteq> None" by simp
  with a b show ?thesis by blast
qed

text \<open>
  Claim C7. For a sprint name that is not in the store, \<open>getWorkItems\<close> and
  \<open>getClassifications\<close> return the empty list and \<open>getSprintStats\<close> returns nothing
  (\<^verbatim>\<open>null\<close>); none of them fails, and each leaves the store, and so the list of
  sprints, as it was.
\<close>

theorem lookups_unknown_sprint:
  assumes "name \<notin> set (getAllSprints s)"
  shows "getWorkItems name s = ([], s) \<and> getClassifications name s = ([], s) \<and>
         getSprintStats name s = (None, s) \<and>
         getAllSprints (snd (getWorkItems name s)) = getAllSprints s \<and>
         getAllSprints (snd (getClassifications name s)) = getAllSprints s \<and>
         getAllSprints (snd (getSprintStats name s)) = getAllSprints s"
proof -
  have "map_of s name = None"
    using assms by (simp add: getAllSprints_def map_of_eq_None_iff)
  then show ?thesis
    by (simp add: getWorkItems_def getClassifications_def getSprintStats_def)
qed

theorem lookups_unknown_sprint_witness:
  "''S2'' \<notin> set (getAllSprints storeOne) \<and>
   getWorkItems ''S2'' storeOne = ([], storeOne) \<and>
   getClassifications ''S2'' storeOne = ([], storeOne) \<and>
   getSprintStats ''S2'' storeOne = (None, storeOne)"
proof -
  have h: "''S2'' \<notin> set (getAllSprints storeOne)" by (simp add: getAllSprints_def)
  from lookups_unknown_sprint [OF h] h show ?thesis by blast
qed

text \<open>
  Claim C9. When the snapshot is not JSON, \<open>importState\<close> throws the syntax error and
  the store is as before. When it is JSON but \<^verbatim>\<open>data.sprints\<close> is not an array (the
  member is missing, or has another kind of value, or the value read is \<^verbatim>\<open>null\<close>),
  \<open>importState\<close> throws a type error and leaves the store empty.
\<close>

theorem importState_failure:
  "importState None s = Throws SyntaxError s \<and>
   ((\<forall>xs. getProp data ''sprints'' \<noteq> Inr (Some (JArr xs))) \<longrightarrow>
      importState (Some data) s = Throws TypeError [])"
proof -
  have "importState (Some data) s = Throws TypeError []"
    if h: "\<forall>xs. getProp data ''sprints'' \<noteq> Inr (Some (JArr xs))"
  proof (cases "getProp data ''sprints''")
    case (Inl e)
    then show ?thesis using getProp_error [OF Inl] by (simp add: importState_def)
  next
    case (Inr r)
    then show ?thesis using h
      by (auto simp: importState_def split: option.splits json.splits)
  qed
  then show ?thesis by (simp add: importState_def)
qed

theorem importState_failure_witness:
  "(\<forall>xs. getProp (JObj [(''sprints'', JNum 5)]) ''sprints'' \<noteq> Inr (Some (JArr xs))) \<and>
   importState (Some (JObj [(''sprints'', JNum 5)])) storeOne = Throws TypeError [] \<and>
   importState None storeOne = Throws SyntaxError storeOne"
proof -
  have h: "\<forall>xs. getProp (JObj [(''sprints'', JNum 5)]) ''sprints'' \<noteq> Inr (Some (JArr xs))"
    by (simp add: getProp_def)
  from importState_failure [of storeOne "JObj [(''sprints'', JNum 5)]"] h
  show ?thesis by blast
qed


text \<open>
  Claim C8, as the code has it. The work items of a sprint accumulate over every call:
  when the sprint already holds an item whose identifier is neither in the first nor in
  the second list, that item is still there after the two calls, and the number of items
  is larger than the number of identifiers of the two lists.
\<close>

theorem updateWorkItems_count_counterexample:
  "length (fst (getWorkItems ''S1'' (updateWorkItems 0 3 ''S1'' [itemCosmetic]
     (updateWorkItems 0 2 ''S1'' [itemCosmetic] (updateWorkItems 0 1 ''S1'' [itemOutage] []))))) = 2 \<and>
   card (id_w ` set [itemCosmetic] \<union> id_w ` set [itemCosmetic]) = 1"
  by (simp add: store_defs)

text \<open>
  Claim C8, amended. After \<open>updateWorkItems\<close> with a list A and then with a list B
  for the same sprint, in any store: an identifier that occurs in B maps to the item of
  B with that identifier (the last one, should B repeat it), whole, with nothing kept of
  the item of A; an identifier that occurs in A only maps to the item of A;
  \<open>getWorkItems\<close> returns the values of that map, and their number is the number of
  distinct identifiers among those that the sprint held before the two calls, those of
  A and those of B, so the number of distinct identifiers of A and B when the sprint
  held no work items before (it was unknown or empty). The premise says that the lists
  of the store are the contents of maps.
\<close>

theorem updateWorkItems_last_write_wins:
  assumes "keysDistinct s"
  shows "\<exists>st. map_of (updateWorkItems c2 t2 name B (updateWorkItems c1 t1 name A s)) name = Some st \<and>
     fst (getWorkItems name (updateWorkItems c2 t2 name B (updateWorkItems c1 t1 name A s))) =
       map snd (workItems st) \<and>
     (\<forall>b\<in>set B. map_of (workItems st) (id_w b) =
        Some (last (filter (\<lambda>w. id_w w = id_w b) B))) \<and>
     (\<forall>a\<in>set A. id_w a \<notin> id_w ` set B \<longrightarrow>
        map_of (workItems st) (id_w a) = Some (last (filter (\<lambda>w. id_w w = id_w a) A))) \<and>
     length (map snd (workItems st)) =
       card ((case map_of s name of None \<Rightarrow> {} | Some st0 \<Rightarrow> fst ` set (workItems st0)) \<union>
             id_w ` set A \<union> id_w ` set B) \<and>
     (fst (getWorkItems name s) = [] \<longrightarrow>
        length (map snd (workItems st)) = card (id_w ` set A \<union> id_w ` set B))"
proof -
  let ?st0 = "fst (getOrCreateSprintState c1 name s)"
  let ?s1 = "updateWorkItems c1 t1 name A s"
  let ?W1 = "foldl (\<lambda>m wi. Map_set (id_w wi) wi m) (workItems ?st0) A"
  let ?st1 = "?st0\<lparr>workItems := ?W1, lastSyncTime := Date t1\<rparr>"
  let ?W2 = "foldl (\<lambda>m wi. Map_set (id_w wi) wi m) ?W1 B"
  let ?st2 = "?st1\<lparr>workItems := ?W2, lastSyncTime := Date t2\<rparr>"
  let ?prior = "case map_of s name of None \<Rightarrow> {} | Some st0 \<Rightarrow> fst ` set (workItems st0)"
  have m1: "map_of ?s1 name = Some ?st1"
    by (simp add: map_of_updateWorkItems)
  have g2: "fst (getOrCreateSprintState c2 name ?s1) = ?st1"
    unfolding getOrCreate_fst [of c2 name ?s1] m1 by simp
  have m2: "map_of (updateWorkItems c2 t2 name B ?s1) name = Some ?st2"
    unfolding map_of_updateWorkItems [of c2 t2 name B ?s1] g2 by simp
  have w2: "workItems ?st2 = ?W2" by simp
  have d0: "distinct (map fst (workItems ?st0))"
  proof (cases "map_of s name")
    case None
    then show ?thesis by (simp add: getOrCreate_fst)
  next
    case (Some st0)
    then show ?thesis using keysDistinct_lookup(1) [OF assms Some] by (simp add: getOrCreate_fst)
  qed
  have k0: "fst ` set (workItems ?st0) = ?prior"
    by (simp add: getOrCreate_fst split: option.splits)
  have keys: "fst ` set ?W2 = ?prior \<union> id_w ` set A \<union> id_w ` set B"
    by (simp only: keys_foldl_Map_set k0)
  have "distinct (map fst ?W2)"
    by (intro distinct_foldl_Map_set d0)
  then have "card (set (map fst ?W2)) = length (map fst ?W2)" by (rule distinct_card)
  then have len: "length (map snd ?W2) = card (?prior \<union> id_w ` set A \<union> id_w ` set B)"
    using keys by simp
  have hitB: "\<forall>b\<in>set B. map_of ?W2 (id_w b) = Some (last (filter (\<lambda>w. id_w w = id_w b) B))"
    by (simp add: map_of_foldl_hit)
  have hitA: "\<forall>a\<in>set A. id_w a \<notin> id_w ` set B \<longrightarrow>
      map_of ?W2 (id_w a) = Some (last (filter (\<lambda>w. id_w w = id_w a) A))"
    by (simp add: map_of_foldl_miss map_of_foldl_hit)
  have get: "fst (getWorkItems name (updateWorkItems c2 t2 name B ?s1)) = map snd ?W2"
    unfolding getWorkItems_def m2 by simp
  have "?prior = {}" if "fst (getWorkItems name s) = []"
    using that by (simp add: getWorkItems_def split: option.splits)
  then have empty: "fst (getWorkItems name s) = [] \<longrightarrow>
      length (map snd ?W2) = card (id_w ` set A \<union> id_w ` set B)"
    using len by simp
  show ?thesis
  proof (rule exI [of _ ?st2], unfold w2, intro conjI)
    show "map_of (updateWorkItems c2 t2 name B ?s1) name = Some ?st2" by (rule m2)
    show "fst (getWorkItems name (updateWorkItems c2 t2 name B ?s1)) = map snd ?W2" by (rule get)
    show "\<forall>b\<in>set B. map_of ?W2 (id_w b) = Some (last (filter (\<lambda>w. id_w w = id_w b) B))"
      by (rule hitB)
    show "\<forall>a\<in>set A. id_w a \<notin> id_w ` set B \<longrightarrow>
        map_of ?W2 (id_w a) = Some (last (filter (\<lambda>w. id_w w = id_w a) A))"
      by (rule hitA)
    show "length (map snd ?W2) = card (?prior \<union> id_w ` set A \<union> id_w ` set B)" by (rule len)
    show "fst (getWorkItems name s) = [] \<longrightarrow>
        length (map snd ?W2) = card (id_w ` set A \<union> id_w ` set B)"
      by (rule empty)
  qed
qed


theorem updateWorkItems_last_write_wins_witness:
  "keysDistinct [] \<and>
   fst (getWorkItems ''S1'' []) = [] \<and>
   itemCosmeticRevised \<noteq> itemCosmetic \<and>
   last (filter (\<lambda>w. id_w w = 2) [itemCosmeticRevised, itemCosmeticCopy]) = itemCosmeticRevised \<and>
   fst (getWorkItems ''S1'' (updateWorkItems 3 4 ''S1'' [itemCosmeticRevised, itemCosmeticCopy]
      (updateWorkItems 1 2 ''S1'' [itemOutage, itemCosmetic] []))) =
     [itemOutage, itemCosmeticRevised, itemCosmeticCopy] \<and>
   card (id_w ` set [itemOutage, itemCosmetic] \<union> id_w ` set [itemCosmeticRevised, itemCosmeticCopy]) = 3 \<and>
   (\<exists>st. map_of (updateWorkItems 3 4 ''S1'' [itemCosmeticRevised, itemCosmeticCopy]
        (updateWorkItems 1 2 ''S1'' [itemOutage, itemCosmetic] [])) ''S1'' = Some st \<and>
     fst (getWorkItems ''S1'' (updateWorkItems 3 4 ''S1'' [itemCosmeticRevised, itemCosmeticCopy]
        (updateWorkItems 1 2 ''S1'' [itemOutage, itemCosmetic] []))) = map snd (workItems st) \<and>
     (\<forall>b\<in>set [itemCosmeticRevised, itemCosmeticCopy]. map_of (workItems st) (id_w b) =
        Some (last (filter (\<lambda>w. id_w w = id_w b) [itemCosmeticRevised, itemCosmeticCopy]))) \<and>
     (\<forall>a\<in>set [itemOutage, itemCosmetic].
        id_w a \<notin> id_w ` set [itemCosmeticRevised, itemCosmeticCopy] \<longrightarrow>
        map_of (workItems st) (id_w a) =
          Some (last (filter (\<lambda>w. id_w w = id_w a) [itemOutage, itemCosmetic]))) \<and>
     length (map snd (workItems st)) =
       card ((case map_of ([]::Store) ''S1'' of None \<Rightarrow> {} | Some st0 \<Rightarrow> fst ` set (workItems st0)) \<union>
             id_w ` set [itemOutage, itemCosmetic] \<union>
             id_w ` set [itemCosmeticRevised, itemCosmeticCopy]) \<and>
     (fst (getWorkItems ''S1'' []) = [] \<longrightarrow>
        length (map snd (workItems st)) =
          card (id_w ` set [itemOutage, itemCosmetic] \<union>
                id_w ` set [itemCosmeticRevised, itemCosmeticCopy])))"
proof (intro conjI)
  show k: "keysDistinct []" by (simp add: keysDistinct_def)
  show "fst (getWorkItems ''S1'' []) = []" by (simp add: getWorkItems_def)
  show "itemCosmeticRevised \<noteq> itemCosmetic" by simp
  show "last (filter (\<lambda>w. id_w w = 2) [itemCosmeticRevised, itemCosmeticCopy]) = itemCosmeticRevised" by simp
  show "fst (getWorkItems ''S1'' (updateWorkItems 3 4 ''S1'' [itemCosmeticRevised, itemCosmeticCopy]
      (updateWorkItems 1 2 ''S1'' [itemOutage, itemCosmetic] []))) =
     [itemOutage, itemCosmeticRevised, itemCosmeticCopy]"
    by (simp add: store_defs)
  show "card (id_w ` set [itemOutage, itemCosmetic] \<union> id_w ` set [itemCosmeticRevised, itemCosmeticCopy]) = 3"
    by (simp add: card_insert_if)
  show "\<exists>st. map_of (updateWorkItems 3 4 ''S1'' [itemCosmeticRevised, itemCosmeticCopy]
        (updateWorkItems 1 2 ''S1'' [itemOutage, itemCosmetic] [])) ''S1'' = Some st \<and>
     fst (getWorkItems ''S1'' (updateWorkItems 3 4 ''S1'' [itemCosmeticRevised, itemCosmeticCopy]
        (updateWorkItems 1 2 ''S1'' [itemOutage, itemCosmetic] []))) = map snd (workItems st) \<and>
     (\<forall>b\<in>set [itemCosmeticRevised, itemCosmeticCopy]. map_of (workItems st) (id_w b) =
        Some (last (filter (\<lambda>w. id_w w = id_w b) [itemCosmeticRevised, itemCosmeticCopy]))) \<and>
     (\<forall>a\<in>set [itemOutage, itemCosmetic].
        id_w a \<notin> id_w ` set [itemCosmeticRevised, itemCosmeticCopy] \<longrightarrow>
        map_of (workItems st) (id_w a) =
          Some (last (filter (\<lambda>w. id_w w = id_w a) [itemOutage, itemCosmetic]))) \<and>
     length (map snd (workItems st)) =
       card ((case map_of ([]::Store) ''S1'' of None \<Rightarrow> {} | Some st0 \<Rightarrow> fst ` set (workItems st0)) \<union>
             id_w ` set [itemOutage, itemCosmetic] \<union>
             id_w ` set [itemCosmeticRevised, itemCosmeticCopy]) \<and>
     (fst (getWorkItems ''S1'' []) = [] \<longrightarrow>
        length (map snd (workItems st)) =
          card (id_w ` set [itemOutage, itemCosmetic] \<union>
                id_w ` set [itemCosmeticRevised, itemCosmeticCopy]))"
    by (rule updateWorkItems_last_write_wins [OF k])
qed

end
